theory Spec2Isabelle
  imports Main "HOL-Library.Word" "HOL-Library.Multiset"
begin

unbundle bit_operations_syntax

section \<open>The x68k-hid bridge: data model\<close>

text \<open>
  The bridge of \<^verbatim>\<open>src/main.c\<close> keeps its state in module-level variables and talks
  to three collaborators: the keyboard UART, the mouse UART and the activity LED. The
  model bundles the variables into one record that every operation takes and returns,
  and it returns what an operation sends to the collaborators as a list of actions, in
  the order of the calls.

  Machine integers are words: \<^verbatim>\<open>uint8_t\<close>, \<^verbatim>\<open>uint16_t\<close> and \<^verbatim>\<open>uint32_t\<close> are read
  with \<open>uint\<close>, the signed \<^verbatim>\<open>int16_t\<close> and \<^verbatim>\<open>int32_t\<close> variables are words read with
  \<open>sint\<close>. Where C computes in \<^verbatim>\<open>int\<close> and stores the result in a narrower variable,
  the model computes in \<open>int\<close> and converts with \<open>word_of_int\<close> (the two's-complement
  truncation of the target's compiler).
\<close>

type_synonym u8 = "8 word"
type_synonym u16 = "16 word"
type_synonym u32 = "32 word"
type_synonym s8 = "8 word"
type_synonym s16 = "16 word"
type_synonym s32 = "32 word"

text \<open>Modelled from the spec: the report types \<^verbatim>\<open>hid_keyboard_report_t\<close> and
  \<^verbatim>\<open>hid_mouse_report_t\<close>, which the USB stack declares and the sources only use.
  The keyboard report has a modifier bitmap, a reserved byte and six keycode slots; the
  list \<open>keycode\<close> holds the slots in order, and the loops over
  \<^verbatim>\<open>sizeof(report->keycode)\<close> visit them in that order. Of the mouse report the
  bridge reads the button bitmap and the two signed 8-bit deltas.\<close>

record hid_keyboard_report =
  modifier :: u8
  reserved :: u8
  keycode :: "u8 list"

record hid_mouse_report =
  buttons :: u8
  x :: s8
  y :: s8

text \<open>Modelled from the spec: the USB stack's constants, which the sources use and do
  not declare. \<^verbatim>\<open>HID_KEY_A\<close> is 0x04 (scenario S1), an empty slot is 0, and the
  left and right buttons are bits 0 and 1 of the button bitmap.\<close>

definition HID_KEY_NONE :: u8 where
  "HID_KEY_NONE = 0x00"

definition HID_KEY_A :: u8 where
  "HID_KEY_A = 0x04"

definition MOUSE_BUTTON_LEFT :: u8 where
  "MOUSE_BUTTON_LEFT = 0x01"

definition MOUSE_BUTTON_RIGHT :: u8 where
  "MOUSE_BUTTON_RIGHT = 0x02"

text \<open>The pins of the two signalling lines, as the source defines them.\<close>

definition MSCTRL_GPIO :: u32 where
  "MSCTRL_GPIO = 3"

definition READY_GPIO :: u32 where
  "READY_GPIO = 5"

text \<open>The module-level variables, with the names of the source.\<close>

record x68k =
  txInhibit :: bool
  keyInhibit :: bool
  msctrlAsserted :: bool
  currentLedLevel :: u8
  currentLedState :: u8
  keyRepeatDelay :: u16
  keyRepeatInterval :: u16
  dx :: s16
  dy :: s16
  lmbPressed :: bool
  rmbPressed :: bool
  prevReport :: hid_keyboard_report
  keyRepeatKeyCode :: u8
  keyRepeatCountdown :: s32

definition zeroReport :: hid_keyboard_report where
  "zeroReport = \<lparr>modifier = 0, reserved = 0, keycode = [0, 0, 0, 0, 0, 0]\<rparr>"

definition x68k_init :: x68k where
  "x68k_init =
     \<lparr>txInhibit = False, keyInhibit = False, msctrlAsserted = False,
      currentLedLevel = 0, currentLedState = 0,
      keyRepeatDelay = 500, keyRepeatInterval = 110,
      dx = 0, dy = 0, lmbPressed = False, rmbPressed = False,
      prevReport = zeroReport,
      keyRepeatKeyCode = 0x00, keyRepeatCountdown = 0\<rparr>"

text \<open>
  What the bridge does to its collaborators: a byte written to the keyboard UART, a byte
  written to the mouse UART, and a call of \<^verbatim>\<open>flashActivityLED\<close> with its rate. The
  body of \<^verbatim>\<open>flashActivityLED\<close> reads the board's clock and drives the LED; the model
  records the call.
\<close>

datatype action = KeybTx u8 | MouseTx u8 | FlashActivityLED nat

fun keyb_bytes :: "action list \<Rightarrow> u8 list" where
  "keyb_bytes [] = []"
| "keyb_bytes (KeybTx b # as) = b # keyb_bytes as"
| "keyb_bytes (_ # as) = keyb_bytes as"

fun mouse_bytes :: "action list \<Rightarrow> u8 list" where
  "mouse_bytes [] = []"
| "mouse_bytes (MouseTx b # as) = b # mouse_bytes as"
| "mouse_bytes (_ # as) = mouse_bytes as"

section \<open>Host command parser\<close>

definition KEYB_MSCTRL :: u8 where "KEYB_MSCTRL = 0x40"
definition KEYB_MSCTRL_MASK :: u8 where "KEYB_MSCTRL_MASK = 0xF8"
definition KEYB_LED_BRIGHTNESS :: u8 where "KEYB_LED_BRIGHTNESS = 0x54"
definition KEYB_LED_BRIGHTNESS_MASK :: u8 where "KEYB_LED_BRIGHTNESS_MASK = 0xFC"
definition KEYB_KEY_INHIBIT :: u8 where "KEYB_KEY_INHIBIT = 0x58"
definition KEYB_KEY_INHIBIT_MASK :: u8 where "KEYB_KEY_INHIBIT_MASK = 0xF8"
definition KEYB_REPEAT_DELAY :: u8 where "KEYB_REPEAT_DELAY = 0x60"
definition KEYB_REPEAT_INTERVAL :: u8 where "KEYB_REPEAT_INTERVAL = 0x70"
definition KEYB_REPEAT_MASK :: u8 where "KEYB_REPEAT_MASK = 0xF0"
definition KEYB_LED_CTRL_MASK :: u8 where "KEYB_LED_CTRL_MASK = 0x80"

text \<open>C's \<^verbatim>\<open>==\<close> yields an \<^verbatim>\<open>int\<close>, 1 or 0.\<close>

definition c_eq :: "int \<Rightarrow> int \<Rightarrow> int" where
  "c_eq a b = (if a = b then 1 else 0)"

text \<open>
  One turn of the loop of \<^verbatim>\<open>uartISR\<close>, on the byte \<open>ch\<close> read from the keyboard UART.
  The key-inhibit branch is \<^verbatim>\<open>keyInhibit = ch & 0x01 == 0\<close>, where \<^verbatim>\<open>==\<close> binds
  tighter than \<^verbatim>\<open>&\<close>: the value stored is \<^verbatim>\<open>ch & (0x01 == 0)\<close> converted to
  \<^verbatim>\<open>bool\<close>.
\<close>

definition uartISR_byte :: "u8 \<Rightarrow> x68k \<Rightarrow> x68k" where
  "uartISR_byte ch s =
     (if ch AND KEYB_MSCTRL_MASK = KEYB_MSCTRL then
        s\<lparr>msctrlAsserted := (ch AND 0x01 = 0)\<rparr>
      else if ch AND KEYB_LED_BRIGHTNESS_MASK = KEYB_LED_BRIGHTNESS then
        s\<lparr>currentLedLevel := ch AND 0x03\<rparr>
      else if ch AND KEYB_KEY_INHIBIT_MASK = KEYB_KEY_INHIBIT then
        s\<lparr>keyInhibit := (uint ch AND c_eq 0x01 0 \<noteq> 0)\<rparr>
      else if ch AND KEYB_REPEAT_MASK = KEYB_REPEAT_DELAY then
        s\<lparr>keyRepeatDelay := word_of_int (200 + uint (ch AND 0x0F) * 100)\<rparr>
      else if ch AND KEYB_REPEAT_MASK = KEYB_REPEAT_INTERVAL then
        (let v = (ucast (ch AND 0x0F) :: u16)
         in s\<lparr>keyRepeatInterval := word_of_int (30 + uint v * uint v * 5)\<rparr>)
      else if ch AND KEYB_LED_CTRL_MASK = KEYB_LED_CTRL_MASK then
        s\<lparr>currentLedState := ch AND 0x7F\<rparr>
      else s)"

text \<open>\<^verbatim>\<open>uartISR\<close> drains the receive FIFO: \<open>rx\<close> is the bytes it finds there.\<close>

fun uartISR :: "u8 list \<Rightarrow> x68k \<Rightarrow> x68k" where
  "uartISR [] s = s"
| "uartISR (ch # rx) s = uartISR rx (uartISR_byte ch s)"

section \<open>Mouse framer\<close>

text \<open>
  \<^verbatim>\<open>MouseData\<close> overlays three bytes with a status byte of one-bit fields and two
  signed bytes. The target's ABI allocates bit-fields from the least significant bit,
  so \<^verbatim>\<open>Lbtn\<close> is bit 0 and \<^verbatim>\<open>Yundr\<close> is bit 7; \<open>MouseData_data\<close> is the view of
  the union as \<^verbatim>\<open>data[3]\<close>.
\<close>

record MouseData =
  Lbtn :: bool
  Rbtn :: bool
  unused :: u8
  Xover :: bool
  Xundr :: bool
  Yover :: bool
  Yundr :: bool
  md_dx :: s8
  md_dy :: s8

definition bitfield :: "bool \<Rightarrow> nat \<Rightarrow> u8" where
  "bitfield b n = (if b then push_bit n 1 else 0)"

definition MouseData_data :: "MouseData \<Rightarrow> u8 list" where
  "MouseData_data m =
     [bitfield (Lbtn m) 0 OR bitfield (Rbtn m) 1 OR push_bit 2 (unused m AND 0x03) OR
      bitfield (Xover m) 4 OR bitfield (Xundr m) 5 OR
      bitfield (Yover m) 6 OR bitfield (Yundr m) 7,
      md_dx m, md_dy m]"

text \<open>
  The early-out of \<^verbatim>\<open>sendMouse\<close> tests
  \<^verbatim>\<open>mdata.data[0] == mdata.data[1] == mdata.data[2] == 0x00\<close>, which C reads from
  the left: \<^verbatim>\<open>((data[0] == data[1]) == data[2]) == 0\<close>.
\<close>

definition sendMouse :: "x68k \<Rightarrow> action list \<times> x68k" where
  "sendMouse s =
     (if txInhibit s then ([], s)
      else
        let mdata = \<lparr>Lbtn = lmbPressed s, Rbtn = rmbPressed s, unused = 0,
                     Xover = (sint (dx s) > 127), Xundr = (sint (dx s) < - 128),
                     Yover = (sint (dy s) > 127), Yundr = (sint (dy s) < - 128),
                     md_dx = word_of_int (sint (dx s) AND 0xFF),
                     md_dy = word_of_int (sint (dy s) AND 0xFF)\<rparr>;
            d = MouseData_data mdata;
            s' = s\<lparr>dx := 0, dy := 0\<rparr>
        in if c_eq (c_eq (c_eq (uint (d ! 0)) (uint (d ! 1))) (uint (d ! 2))) 0x00 \<noteq> 0
           then (map MouseTx d, s')
           else (map MouseTx d @ [FlashActivityLED 100], s'))"

text \<open>
  \<^verbatim>\<open>gpioISR\<close>. The interrupt's event mask is tested against the SDK's
  \<^verbatim>\<open>GPIO_IRQ_EDGE_FALL\<close>, which the sources do not declare: \<open>falling\<close> is the truth
  value of \<^verbatim>\<open>events & GPIO_IRQ_EDGE_FALL\<close>. The second test is the assignment
  \<^verbatim>\<open>gpio = READY_GPIO\<close>, whose value 5 is true for every pin.
\<close>

definition gpioISR :: "u32 \<Rightarrow> bool \<Rightarrow> x68k \<Rightarrow> action list \<times> x68k" where
  "gpioISR gpio falling s =
     (if gpio = MSCTRL_GPIO \<and> falling then sendMouse s
      else if READY_GPIO \<noteq> 0 then ([], s\<lparr>txInhibit := falling\<rparr>)
      else ([], s))"

text \<open>
  \<^verbatim>\<open>processMouseReport\<close>. The sum \<^verbatim>\<open>dx + report->x\<close> is computed in \<^verbatim>\<open>int\<close> and
  stored in the \<^verbatim>\<open>int16_t\<close> variable.
\<close>

definition processMouseReport :: "hid_mouse_report \<Rightarrow> x68k \<Rightarrow> x68k" where
  "processMouseReport report s =
     s\<lparr>lmbPressed := (buttons report AND MOUSE_BUTTON_LEFT \<noteq> 0),
       rmbPressed := (buttons report AND MOUSE_BUTTON_RIGHT \<noteq> 0),
       dx := word_of_int (sint (dx s) + sint (x report)),
       dy := word_of_int (sint (dy s) + sint (y report))\<rparr>"

section \<open>Keyboard diff engine and repeat timer\<close>

definition modifierScans :: "u8 list" where
  "modifierScans = [0x71, 0x70, 0x56, 0x55, 0x59, 0x70, 0x57, 0x58]"

definition keycodeScans :: "u8 list" where
  "keycodeScans =
     [0x1e, 0x2e, 0x2c, 0x20, 0x13, 0x21, 0x22, 0x23, 0x18, 0x24,
      0x25, 0x26, 0x30, 0x2f, 0x19, 0x1a, 0x11, 0x14, 0x1f, 0x15,
      0x17, 0x2d, 0x12, 0x2b, 0x16, 0x2a, 0x02, 0x03, 0x04, 0x05,
      0x06, 0x07, 0x08, 0x09, 0x0a, 0x0b, 0x1d, 0x01, 0x0f, 0x10,
      0x35, 0x0c, 0x0d, 0x1b, 0x1c, 0x0e, 0x29, 0x27, 0x28, 0x60,
      0x31, 0x32, 0x33, 0x5d, 0x63, 0x64, 0x65, 0x66, 0x67, 0x68,
      0x69, 0x6a, 0x6b, 0x6c, 0x5a, 0x5b, 0x62, 0x54, 0x61, 0x5e,
      0x36, 0x38, 0x37, 0x3a, 0x39, 0x3d, 0x3b, 0x3e, 0x3c, 0x3f,
      0x40, 0x41, 0x42, 0x46, 0x4e, 0x4b, 0x4c, 0x4d, 0x47, 0x48,
      0x49, 0x43, 0x44, 0x45, 0x4f, 0x51, 0x0e]"

text \<open>\<^verbatim>\<open>sendKeycode\<close> changes no variable of the bridge: it returns its actions.
  The parameter \<^verbatim>\<open>make\<close> of the source is \<open>mk\<close> here and below.\<close>

definition sendKeycode :: "u8 \<Rightarrow> bool \<Rightarrow> action list" where
  "sendKeycode keyCode mk =
     (if keyCode < HID_KEY_A \<or> uint keyCode - uint HID_KEY_A \<ge> int (length keycodeScans)
      then []
      else
        let scan = keycodeScans ! nat (uint keyCode - uint HID_KEY_A);
            scan' = scan OR (if mk then 0x00 else 0x80)
        in [KeybTx scan', FlashActivityLED 100])"

fun isPresentIn :: "u8 list \<Rightarrow> u8 \<Rightarrow> bool" where
  "isPresentIn [] keyCode = False"
| "isPresentIn (k # ks) keyCode = (if k = keyCode then True else isPresentIn ks keyCode)"

definition isPresentInReport :: "hid_keyboard_report \<Rightarrow> u8 \<Rightarrow> bool" where
  "isPresentInReport report keyCode = isPresentIn (keycode report) keyCode"

text \<open>
  The loop of \<^verbatim>\<open>compareKeybReports\<close> over the slots of \<^verbatim>\<open>reportA\<close> that are still
  to visit.
\<close>

fun compareKeybSlots ::
  "u8 list \<Rightarrow> hid_keyboard_report \<Rightarrow> bool \<Rightarrow> x68k \<Rightarrow> action list \<times> x68k" where
  "compareKeybSlots [] reportB mk s = ([], s)"
| "compareKeybSlots (keyCode # slots) reportB mk s =
     (if keyCode = HID_KEY_NONE \<or> keyCode \<le> 0x03 then
        compareKeybSlots slots reportB mk s
      else if \<not> isPresentInReport reportB keyCode then
        let out = sendKeycode keyCode mk;
            s' = (if mk then
                    s\<lparr>keyRepeatKeyCode := keyCode,
                      keyRepeatCountdown := ucast (keyRepeatDelay s)\<rparr>
                  else if keyRepeatKeyCode s = keyCode then
                    s\<lparr>keyRepeatKeyCode := 0, keyRepeatCountdown := 0\<rparr>
                  else s);
            (out', s'') = compareKeybSlots slots reportB mk s'
        in (out @ out', s'')
      else compareKeybSlots slots reportB mk s)"

definition compareKeybReports ::
  "hid_keyboard_report \<Rightarrow> hid_keyboard_report \<Rightarrow> bool \<Rightarrow> x68k \<Rightarrow> action list \<times> x68k" where
  "compareKeybReports reportA reportB mk s =
     compareKeybSlots (keycode reportA) reportB mk s"

text \<open>The modifier pass of \<^verbatim>\<open>processKeybReport\<close>, for the bits \<open>i\<close> of \<open>bits\<close>.\<close>

fun modifierPass :: "nat list \<Rightarrow> u8 \<Rightarrow> hid_keyboard_report \<Rightarrow> action list" where
  "modifierPass [] modified report = []"
| "modifierPass (i # bits) modified report =
     (let md = (push_bit i 1 :: u8)
      in (if modified AND md \<noteq> 0 then
            let mk = (modifier report AND md \<noteq> 0);
                scan = (modifierScans ! i) OR (if mk then 0x00 else 0x80)
            in [KeybTx scan, FlashActivityLED 100]
          else [])
         @ modifierPass bits modified report)"

definition processKeybReport :: "hid_keyboard_report \<Rightarrow> x68k \<Rightarrow> action list \<times> x68k" where
  "processKeybReport report s =
     (let modified = modifier (prevReport s) XOR modifier report;
          out0 = (if modified \<noteq> 0 then modifierPass [0..<8] modified report else []);
          (out1, s1) = compareKeybReports (prevReport s) report False s;
          (out2, s2) = compareKeybReports report (prevReport s1) True s1
      in (out0 @ out1 @ out2, s2\<lparr>prevReport := report\<rparr>))"

text \<open>
  \<^verbatim>\<open>processKeybAndMouse\<close>: the poll of the keyboard UART, with the bytes \<open>rx\<close> that
  are waiting there, and the repeat timer. \<^verbatim>\<open>keyRepeatCountdown -= deltaTime\<close>
  subtracts an unsigned 32-bit value from the signed one, modulo \<open>2 ^ 32\<close>.
\<close>

definition processKeybAndMouse :: "u32 \<Rightarrow> u8 list \<Rightarrow> x68k \<Rightarrow> action list \<times> x68k" where
  "processKeybAndMouse deltaTime rx s =
     (let wasAserted = msctrlAsserted s;
          s1 = uartISR rx s;
          isAsserted = msctrlAsserted s1;
          (out1, s2) = (if \<not> wasAserted \<and> isAsserted then sendMouse s1 else ([], s1))
      in if keyRepeatCountdown s2 \<noteq> 0 then
           let s3 = s2\<lparr>keyRepeatCountdown := keyRepeatCountdown s2 - deltaTime\<rparr>
           in if sint (keyRepeatCountdown s3) \<le> 0 then
                (out1 @ sendKeycode (keyRepeatKeyCode s3) True,
                 s3\<lparr>keyRepeatCountdown := ucast (keyRepeatInterval s3)\<rparr>)
              else (out1, s3)
         else (out1, s2))"

section \<open>Events\<close>

text \<open>
  The entry points of the bridge: a keyboard or mouse report delivered by the USB stack
  (\<^verbatim>\<open>tuh_hid_report_received_cb\<close>), a turn of the main loop
  (\<^verbatim>\<open>processKeybAndMouse\<close>) and a GPIO interrupt. Each is handled to completion.
\<close>

datatype event =
  KeybReport hid_keyboard_report
| MouseReport hid_mouse_report
| Tick u32 "u8 list"
| GpioIrq u32 bool

fun step :: "event \<Rightarrow> x68k \<Rightarrow> action list \<times> x68k" where
  "step (KeybReport report) s = processKeybReport report s"
| "step (MouseReport report) s = ([], processMouseReport report s)"
| "step (Tick deltaTime rx) s = processKeybAndMouse deltaTime rx s"
| "step (GpioIrq gpio falling) s = gpioISR gpio falling s"

fun run :: "event list \<Rightarrow> x68k \<Rightarrow> action list \<times> x68k" where
  "run [] s = ([], s)"
| "run (ev # evs) s =
     (let (out, s') = step ev s; (out', s'') = run evs s' in (out @ out', s''))"

section \<open>Properties of runs\<close>

text \<open>Mouse reports delivered one after the other, with no emission in between.\<close>

fun deliverMouseReports :: "hid_mouse_report list \<Rightarrow> x68k \<Rightarrow> x68k" where
  "deliverMouseReports [] s = s"
| "deliverMouseReports (r # rs) s = deliverMouseReports rs (processMouseReport r s)"

text \<open>
  The two shapes of the repeat state: disarmed, with the key code and the countdown both
  zero, or armed, with a key code and a positive countdown. The shapes are kept because
  the two repeat times of the configuration are never zero.
\<close>

definition repeat_ok :: "x68k \<Rightarrow> bool" where
  "repeat_ok s =
     (keyRepeatKeyCode s = 0 \<and> keyRepeatCountdown s = 0 \<or>
      keyRepeatKeyCode s \<noteq> 0 \<and> 0 < sint (keyRepeatCountdown s))"

definition config_ok :: "x68k \<Rightarrow> bool" where
  "config_ok s = (keyRepeatDelay s \<noteq> 0 \<and> keyRepeatInterval s \<noteq> 0)"

definition bridge_inv :: "x68k \<Rightarrow> bool" where
  "bridge_inv s = (repeat_ok s \<and> config_ok s)"

text \<open>
  The scancodes of the make codes and of the break codes among the bytes written to the
  keyboard UART, without those of the modifier keys. A break code is the scancode with
  bit 7 set.
\<close>

definition key_makes :: "action list \<Rightarrow> u8 multiset" where
  "key_makes out =
     mset (filter (\<lambda>b. \<not> bit b 7 \<and> b \<notin> set modifierScans) (keyb_bytes out))"

definition key_breaks :: "action list \<Rightarrow> u8 multiset" where
  "key_breaks out =
     mset (map (\<lambda>b. b AND 0x7F)
       (filter (\<lambda>b. bit b 7 \<and> b AND 0x7F \<notin> set modifierScans) (keyb_bytes out)))"

text \<open>
  The keycodes that \<^verbatim>\<open>sendKeycode\<close> translates (the 97 entries of the table start
  at \<^verbatim>\<open>HID_KEY_A\<close>), their entry in the table, and the keycodes of a report that
  the diff engine looks at.
\<close>

definition translatable :: "u8 \<Rightarrow> bool" where
  "translatable k = (HID_KEY_A \<le> k \<and> k \<le> 0x64)"

definition scan_of :: "u8 \<Rightarrow> u8" where
  "scan_of k = keycodeScans ! nat (uint k - uint HID_KEY_A)"

definition pressed :: "hid_keyboard_report \<Rightarrow> u8 list" where
  "pressed report = filter (\<lambda>k. 0x03 < k) (keycode report)"

section \<open>Inputs of the scenarios\<close>

text \<open>
  Keyboard reports: A pressed, A in two slots, and the Application key (HID 0x65, the
  first keycode past the translation table).
\<close>

definition report_A :: hid_keyboard_report where
  "report_A = \<lparr>modifier = 0, reserved = 0, keycode = [0x04, 0, 0, 0, 0, 0]\<rparr>"

definition report_AA :: hid_keyboard_report where
  "report_AA = \<lparr>modifier = 0, reserved = 0, keycode = [0x04, 0x04, 0, 0, 0, 0]\<rparr>"

definition report_App :: hid_keyboard_report where
  "report_App = \<lparr>modifier = 0, reserved = 0, keycode = [0x65, 0, 0, 0, 0, 0]\<rparr>"

definition reports_A_zero :: "hid_keyboard_report list" where
  "reports_A_zero = [report_A, zeroReport]"

definition reports_AA_A_zero :: "hid_keyboard_report list" where
  "reports_AA_A_zero = [report_AA, report_A, zeroReport]"

text \<open>Mouse reports: the two of scenario S5, and a move of +127.\<close>

definition reports_S5 :: "hid_mouse_report list" where
  "reports_S5 = [\<lparr>buttons = 0x01, x = 10, y = - 5\<rparr>, \<lparr>buttons = 0x01, x = 3, y = - 2\<rparr>]"

definition report_right127 :: hid_mouse_report where
  "report_right127 = \<lparr>buttons = 0, x = 127, y = 0\<rparr>"

text \<open>
  States: the accumulator after the reports of S5, the same with transmission
  inhibited, the left button held with no motion, the boot state after the READY line
  has fallen, and the boot state after the report that presses A or the Application key.
  The last definition is the run in which the host sends the key-inhibit command 0x58
  and the keyboard then reports A.
\<close>

definition state_S5 :: x68k where
  "state_S5 = x68k_init\<lparr>lmbPressed := True, dx := 13, dy := - 7\<rparr>"

definition state_inhibited :: x68k where
  "state_inhibited = state_S5\<lparr>txInhibit := True\<rparr>"

definition state_button_held :: x68k where
  "state_button_held = x68k_init\<lparr>lmbPressed := True\<rparr>"

definition state_ready_low :: x68k where
  "state_ready_low = snd (step (GpioIrq READY_GPIO True) x68k_init)"

definition state_A_armed :: x68k where
  "state_A_armed = snd (step (KeybReport report_A) x68k_init)"

definition state_App_armed :: x68k where
  "state_App_armed = snd (step (KeybReport report_App) x68k_init)"


section \<open>Auxiliary facts\<close>

lemma keyb_bytes_append: "keyb_bytes (as @ bs) = keyb_bytes as @ keyb_bytes bs"
  by (induction as rule: keyb_bytes.induct) simp_all

lemma mouse_bytes_append: "mouse_bytes (as @ bs) = mouse_bytes as @ mouse_bytes bs"
  by (induction as rule: mouse_bytes.induct) simp_all

lemma bit_bitfield: "bit (bitfield b n) k = (b \<and> k = n \<and> n < 8)"
  by (auto simp: bitfield_def bit_push_bit_iff bit_1_iff bit_exp_iff)

lemma low_byte_s16: "(word_of_int (sint (w :: s16) AND 0xFF) :: u8) = ucast w"
proof -
  have "(0xFF :: int) = mask 8"
    by (simp add: mask_eq_exp_minus_1)
  then have "sint w AND 0xFF = take_bit 8 (sint w)"
    by (simp add: take_bit_eq_mask)
  then show ?thesis
    by (simp, intro bit_word_eqI) (simp add: bit_simps)
qed

lemma ucast_s16_u8: "(ucast (w :: s16) :: u8) = word_of_int (sint w)"
  by (rule bit_word_eqI) (auto simp: bit_simps)

lemma sint_ucast_s16_u8:
  "- 128 \<le> sint (w :: s16) \<Longrightarrow> sint w \<le> 127 \<Longrightarrow> sint (ucast w :: u8) = sint w"
  by (simp only: ucast_s16_u8 sint_sbintrunc') (simp add: signed_take_bit_int_eq_self)

lemma sendMouse_frame:
  "\<not> txInhibit s \<Longrightarrow>
   mouse_bytes (fst (sendMouse s)) =
     [bitfield (lmbPressed s) 0 OR bitfield (rmbPressed s) 1 OR
      bitfield (127 < sint (dx s)) 4 OR bitfield (sint (dx s) < - 128) 5 OR
      bitfield (127 < sint (dy s)) 6 OR bitfield (sint (dy s) < - 128) 7,
      ucast (dx s), ucast (dy s)]"
  by (simp add: sendMouse_def Let_def MouseData_data_def low_byte_s16 mouse_bytes_append)

section \<open>The mouse framer\<close>

text \<open>
  C4. When \<^verbatim>\<open>sendMouse\<close> emits (transmission is not inhibited) it writes exactly
  three bytes to the mouse UART. In the first, bit 0 is the left button, bit 1 the right
  button, bits 2 and 3 are zero, bit 4 says that the accumulated \<open>dx\<close> is above 127,
  bit 5 that it is below -128, bits 6 and 7 the same for \<open>dy\<close>. The second and third
  bytes are the low eight bits of \<open>dx\<close> and \<open>dy\<close>. When \<open>dx\<close> lies in [-128, 127] the
  second byte, read as two's complement, is \<open>dx\<close> and the two X flags are clear.
\<close>

theorem mouse_packet_layout:
  "\<not> txInhibit s \<Longrightarrow>
   (case mouse_bytes (fst (sendMouse s)) of
      [b0, b1, b2] \<Rightarrow>
        bit b0 0 = lmbPressed s \<and> bit b0 1 = rmbPressed s \<and>
        \<not> bit b0 2 \<and> \<not> bit b0 3 \<and>
        bit b0 4 = (sint (dx s) > 127) \<and> bit b0 5 = (sint (dx s) < - 128) \<and>
        bit b0 6 = (sint (dy s) > 127) \<and> bit b0 7 = (sint (dy s) < - 128) \<and>
        b1 = ucast (dx s) \<and> b2 = ucast (dy s) \<and>
        (- 128 \<le> sint (dx s) \<and> sint (dx s) \<le> 127 \<longrightarrow>
           sint b1 = sint (dx s) \<and> \<not> bit b0 4 \<and> \<not> bit b0 5)
    | _ \<Rightarrow> False)"
  by (simp add: sendMouse_frame bit_or_iff bit_bitfield sint_ucast_s16_u8)

theorem mouse_packet_layout_witness:
  "\<not> txInhibit state_S5 \<and>
   mouse_bytes (fst (sendMouse state_S5)) = [0x01, 0x0D, 0xF9]"
proof -
  have h: "\<not> txInhibit state_S5"
    by (simp add: state_S5_def x68k_init_def)
  from mouse_packet_layout [OF h] h show ?thesis
    by (simp add: sendMouse_frame state_S5_def x68k_init_def bitfield_def)
qed

text \<open>
  C6. A call of \<^verbatim>\<open>sendMouse\<close> while \<open>txInhibit\<close> is true emits nothing and leaves
  the whole state, so also \<open>dx\<close>, \<open>dy\<close> and the two buttons, as it was. A call while
  it is false writes the three bytes, resets \<open>dx\<close> and \<open>dy\<close> to zero and leaves the
  buttons as they were.
\<close>

theorem sendMouse_inhibit_and_reset:
  "(txInhibit s \<longrightarrow> sendMouse s = ([], s)) \<and>
   (\<not> txInhibit s \<longrightarrow>
      length (mouse_bytes (fst (sendMouse s))) = 3 \<and>
      dx (snd (sendMouse s)) = 0 \<and> dy (snd (sendMouse s)) = 0 \<and>
      lmbPressed (snd (sendMouse s)) = lmbPressed s \<and>
      rmbPressed (snd (sendMouse s)) = rmbPressed s)"
  by (simp add: sendMouse_def Let_def MouseData_data_def mouse_bytes_append)

theorem sendMouse_inhibit_and_reset_witness:
  "txInhibit state_inhibited \<and> sendMouse state_inhibited = ([], state_inhibited) \<and>
   dx state_inhibited = 13 \<and>
   \<not> txInhibit state_S5 \<and> dx state_S5 = 13 \<and>
   length (mouse_bytes (fst (sendMouse state_S5))) = 3 \<and>
   dx (snd (sendMouse state_S5)) = 0 \<and> dy (snd (sendMouse state_S5)) = 0 \<and>
   lmbPressed (snd (sendMouse state_S5)) \<and> \<not> rmbPressed (snd (sendMouse state_S5))"
proof -
  have i: "txInhibit state_inhibited" and d: "dx state_inhibited = 13"
    by (simp_all add: state_inhibited_def state_S5_def x68k_init_def)
  have u: "\<not> txInhibit state_S5" and e: "dx state_S5 = 13"
    and b: "lmbPressed state_S5" "\<not> rmbPressed state_S5"
    by (simp_all add: state_S5_def x68k_init_def)
  from sendMouse_inhibit_and_reset [of state_inhibited]
    sendMouse_inhibit_and_reset [of state_S5] i d u e b
  show ?thesis by simp
qed

text \<open>
  C9. \<^verbatim>\<open>sendMouse\<close> calls \<^verbatim>\<open>flashActivityLED(100)\<close> only after a frame that is not
  all zero: a call that writes the frame 0, 0, 0 never pulses the LED. (The test in the
  source is the chained equality, so this is one direction only.)
\<close>

theorem mouse_led_pulse_only_nonzero:
  "FlashActivityLED 100 \<in> set (fst (sendMouse s)) \<Longrightarrow>
   mouse_bytes (fst (sendMouse s)) \<noteq> [0, 0, 0]"
  by (auto simp: sendMouse_def Let_def MouseData_data_def c_eq_def mouse_bytes_append
      split: if_splits)

theorem mouse_led_pulse_only_nonzero_witness:
  "FlashActivityLED 100 \<in> set (fst (sendMouse state_button_held)) \<and>
   mouse_bytes (fst (sendMouse state_button_held)) \<noteq> [0, 0, 0]"
proof -
  have h: "FlashActivityLED 100 \<in> set (fst (sendMouse state_button_held))"
    by (simp add: sendMouse_def Let_def MouseData_data_def c_eq_def bitfield_def
        state_button_held_def x68k_init_def)
  from mouse_led_pulse_only_nonzero [OF h] h show ?thesis
    by simp
qed

section \<open>The host command parser\<close>

text \<open>
  C5. The byte 0x58 matches the key-inhibit pattern and has its low bit clear, so the
  command as documented sets \<open>keyInhibit\<close>. The parser stores false: the expression
  of the source is \<^verbatim>\<open>ch & (0x01 == 0)\<close>, which is zero for every byte.
\<close>

theorem key_inhibit_command_stores_false:
  "(0x58 :: u8) AND KEYB_KEY_INHIBIT_MASK = KEYB_KEY_INHIBIT \<and>
   ((0x58 :: u8) AND 0x01 = 0) \<and>
   keyInhibit (uartISR [0x58] s) = False"
  by (simp add: uartISR_byte_def c_eq_def KEYB_MSCTRL_MASK_def KEYB_MSCTRL_def
      KEYB_LED_BRIGHTNESS_MASK_def KEYB_LED_BRIGHTNESS_def
      KEYB_KEY_INHIBIT_MASK_def KEYB_KEY_INHIBIT_def)

section \<open>The mouse accumulator\<close>

lemma dx_deliver:
  "dx (deliverMouseReports rs s) = dx s + word_of_int (\<Sum>r\<leftarrow>rs. sint (x r))"
  by (induction rs arbitrary: s) (simp_all add: processMouseReport_def)

lemma dy_deliver:
  "dy (deliverMouseReports rs s) = dy s + word_of_int (\<Sum>r\<leftarrow>rs. sint (y r))"
  by (induction rs arbitrary: s) (simp_all add: processMouseReport_def)

lemma deliver_snoc:
  "deliverMouseReports (rs @ [r]) s = processMouseReport r (deliverMouseReports rs s)"
  by (induction rs arbitrary: s) simp_all

lemma buttons_deliver:
  "rs \<noteq> [] \<Longrightarrow>
   lmbPressed (deliverMouseReports rs s) = bit (buttons (last rs)) 0 \<and>
   rmbPressed (deliverMouseReports rs s) = bit (buttons (last rs)) 1"
proof (cases rs rule: rev_cases)
  case Nil
  assume "rs \<noteq> []"
  with Nil show ?thesis by simp
next
  case (snoc rs' r)
  have "(w AND 1 \<noteq> 0) = bit w 0" "(w AND 2 \<noteq> 0) = bit w 1" for w :: u8
    using bit_iff_and_push_bit_not_eq_0 [of w 0] bit_iff_and_push_bit_not_eq_0 [of w 1]
    by simp_all
  with snoc show ?thesis
    by (simp add: deliver_snoc processMouseReport_def MOUSE_BUTTON_LEFT_def
        MOUSE_BUTTON_RIGHT_def)
qed

lemma sint_s16_of_int: "- 32768 \<le> k \<Longrightarrow> k \<le> 32767 \<Longrightarrow> sint (word_of_int k :: s16) = k"
  by (simp only: sint_sbintrunc') (simp add: signed_take_bit_int_eq_self)

text \<open>
  C7, as the source has it. The claim's sum is a saturating one; \<^verbatim>\<open>dx += report->x\<close>
  stores the \<^verbatim>\<open>int\<close> sum in an \<^verbatim>\<open>int16_t\<close>, which wraps around. After 259
  reports of +127 from the initial state the sum of the deltas is 32893; saturation would
  leave 32767 in \<open>dx\<close>, the source leaves -32643.
\<close>

theorem mouse_no_saturation_counterexample:
  "sint (dx (deliverMouseReports (replicate 259 report_right127) x68k_init)) = - 32643 \<and>
   min 32767 (259 * sint (x report_right127)) = 32767"
  by (simp only: dx_deliver) (simp add: report_right127_def x68k_init_def sum_list_replicate)

text \<open>
  C7, amended. After a send (\<open>dx\<close> and \<open>dy\<close> are zero) and the delivery of the mouse
  reports \<open>rs\<close>, the buttons are bits 0 and 1 of the last report's button byte, and
  \<open>dx\<close> and \<open>dy\<close> are the sums of the signed deltas of all the reports, taken modulo
  \<open>2 ^ 16\<close> (two's-complement wrap-around, no saturation): they are the exact sums
  whenever these lie in the signed 16-bit range.
\<close>

theorem mouse_deltas_accumulate_mod:
  "rs \<noteq> [] \<Longrightarrow> dx s = 0 \<Longrightarrow> dy s = 0 \<Longrightarrow>
   lmbPressed (deliverMouseReports rs s) = bit (buttons (last rs)) 0 \<and>
   rmbPressed (deliverMouseReports rs s) = bit (buttons (last rs)) 1 \<and>
   dx (deliverMouseReports rs s) = word_of_int (\<Sum>r\<leftarrow>rs. sint (x r)) \<and>
   dy (deliverMouseReports rs s) = word_of_int (\<Sum>r\<leftarrow>rs. sint (y r)) \<and>
   (- 32768 \<le> (\<Sum>r\<leftarrow>rs. sint (x r)) \<and> (\<Sum>r\<leftarrow>rs. sint (x r)) \<le> 32767 \<longrightarrow>
      sint (dx (deliverMouseReports rs s)) = (\<Sum>r\<leftarrow>rs. sint (x r))) \<and>
   (- 32768 \<le> (\<Sum>r\<leftarrow>rs. sint (y r)) \<and> (\<Sum>r\<leftarrow>rs. sint (y r)) \<le> 32767 \<longrightarrow>
      sint (dy (deliverMouseReports rs s)) = (\<Sum>r\<leftarrow>rs. sint (y r)))"
  using buttons_deliver [of rs s]
  by (simp only: dx_deliver dy_deliver) (simp add: sint_s16_of_int)

theorem mouse_deltas_accumulate_mod_witness:
  "reports_S5 \<noteq> [] \<and> dx x68k_init = 0 \<and> dy x68k_init = 0 \<and>
   lmbPressed (deliverMouseReports reports_S5 x68k_init) \<and>
   \<not> rmbPressed (deliverMouseReports reports_S5 x68k_init) \<and>
   sint (dx (deliverMouseReports reports_S5 x68k_init)) = 13 \<and>
   sint (dy (deliverMouseReports reports_S5 x68k_init)) = - 7"
proof -
  have h: "reports_S5 \<noteq> []" "dx x68k_init = 0" "dy x68k_init = 0"
    by (simp_all add: reports_S5_def x68k_init_def)
  from mouse_deltas_accumulate_mod [OF h] h show ?thesis
    by (simp add: reports_S5_def)
qed

section \<open>Inhibit gating\<close>

lemma mouse_bytes_sendKeycode: "mouse_bytes (sendKeycode k mk) = []"
  by (simp add: sendKeycode_def Let_def)

lemma mouse_bytes_modifierPass: "mouse_bytes (modifierPass bits modified report) = []"
  by (induction bits) (simp_all add: Let_def mouse_bytes_append)

lemma mouse_bytes_compareKeybSlots:
  "mouse_bytes (fst (compareKeybSlots slots reportB mk s)) = []"
  by (induction slots arbitrary: s)
    (simp_all add: Let_def case_prod_beta mouse_bytes_append mouse_bytes_sendKeycode)

lemma mouse_bytes_processKeybReport: "mouse_bytes (fst (processKeybReport report s)) = []"
  by (simp add: processKeybReport_def compareKeybReports_def Let_def case_prod_beta
      mouse_bytes_append mouse_bytes_modifierPass mouse_bytes_compareKeybSlots)

lemma txInhibit_uartISR: "txInhibit (uartISR rx s) = txInhibit s"
  by (induction rx arbitrary: s) (simp_all add: uartISR_byte_def Let_def)

text \<open>
  C1, amended. Whatever the event (a keyboard or mouse report, a turn of the main loop
  with its host command bytes, a GPIO interrupt), when it is processed while
  \<open>txInhibit\<close> is true no byte is written to the mouse UART.
\<close>

theorem inhibit_suppresses_mouse_sink:
  "txInhibit s \<Longrightarrow> mouse_bytes (fst (step ev s)) = []"
proof (cases ev)
  case (KeybReport report)
  then show ?thesis by (simp add: mouse_bytes_processKeybReport)
next
  case (MouseReport report)
  then show ?thesis by simp
next
  case (Tick deltaTime rx)
  assume "txInhibit s"
  then have "sendMouse (uartISR rx s) = ([], uartISR rx s)"
    by (simp add: sendMouse_def txInhibit_uartISR)
  with Tick show ?thesis
    by (simp add: processKeybAndMouse_def Let_def mouse_bytes_append mouse_bytes_sendKeycode)
next
  case (GpioIrq gpio falling)
  assume "txInhibit s"
  with GpioIrq show ?thesis
    by (simp add: gpioISR_def sendMouse_def)
qed

theorem inhibit_suppresses_mouse_sink_witness:
  "txInhibit state_inhibited \<and>
   mouse_bytes (fst (step (GpioIrq MSCTRL_GPIO True) state_inhibited)) = [] \<and>
   mouse_bytes (fst (step (Tick 1 [0x40]) state_inhibited)) = []"
proof -
  have h: "txInhibit state_inhibited"
    by (simp add: state_inhibited_def)
  from inhibit_suppresses_mouse_sink [OF h, of "GpioIrq MSCTRL_GPIO True"]
    inhibit_suppresses_mouse_sink [OF h, of "Tick 1 [0x40]"] h
  show ?thesis by simp
qed

text \<open>
  C1, as the source has it. The keyboard UART is written by \<^verbatim>\<open>sendKeycode\<close> and
  by the modifier pass, and neither tests \<open>txInhibit\<close>: after the READY line has
  fallen, the report that presses A still writes the make code 0x1E.
\<close>

theorem inhibit_keyboard_counterexample:
  "txInhibit state_ready_low \<and>
   keyb_bytes (fst (step (KeybReport report_A) state_ready_low)) = [0x1E]"
  by (simp add: state_ready_low_def gpioISR_def READY_GPIO_def MSCTRL_GPIO_def x68k_init_def
      processKeybReport_def compareKeybReports_def zeroReport_def report_A_def
      isPresentInReport_def sendKeycode_def HID_KEY_A_def HID_KEY_NONE_def keycodeScans_def Let_def)

lemma and_mask_narrow: "(ch :: u8) AND m = p \<Longrightarrow> ch AND (m AND m') = p AND m'"
  by (auto simp: and.assoc)

lemma uint_low_nibble: "uint ((ch :: u8) AND 0x0F) \<le> 15"
  using word_and_le1 [of ch "0x0F"] by (simp add: word_le_def)

lemma uint_low_nibble_nonneg: "0 \<le> uint ((ch :: u8) AND 0x0F)"
  by simp

lemma uint_u16_of_int: "0 \<le> k \<Longrightarrow> k < 65536 \<Longrightarrow> uint (word_of_int k :: u16) = k"
  by (simp add: uint_word_of_int_eq take_bit_int_eq_self)

lemma uint_ucast_nibble: "uint (ucast ((ch :: u8) AND 0x0F) :: u16) = uint (ch AND 0x0F)"
  by (simp add: uint_up_ucast is_up)

lemma repeat_delay_value:
  "uint (word_of_int (200 + uint ((ch :: u8) AND 0x0F) * 100) :: u16) = 200 + uint (ch AND 0x0F) * 100"
  using uint_low_nibble [of ch] by (intro uint_u16_of_int) simp_all

lemma repeat_interval_value:
  "uint (word_of_int (30 + uint ((ch :: u8) AND 0x0F) * uint (ch AND 0x0F) * 5) :: u16)
     = 30 + uint (ch AND 0x0F) * uint (ch AND 0x0F) * 5"
proof -
  have "uint (ch AND 0x0F) * uint (ch AND 0x0F) \<le> 15 * 15"
    using uint_low_nibble [of ch] by (intro mult_mono) simp_all
  then show ?thesis
    by (intro uint_u16_of_int) simp_all
qed

lemma repeat_delay_value_nf:
  "uint (200 + ucast ((ch :: u8) AND 0x0F) * 100 :: u16) = 200 + uint (ch AND 0x0F) * 100"
proof -
  have "(200 + ucast (ch AND 0x0F) * 100 :: u16) = word_of_int (200 + uint (ch AND 0x0F) * 100)"
    by simp
  then show ?thesis
    by (simp only: repeat_delay_value)
qed

lemma repeat_interval_value_nf:
  "uint (30 + ucast ((ch :: u8) AND 0x0F) * ucast (ch AND 0x0F) * 5 :: u16)
     = 30 + uint (ch AND 0x0F) * uint (ch AND 0x0F) * 5"
proof -
  have "(30 + ucast (ch AND 0x0F) * ucast (ch AND 0x0F) * 5 :: u16)
          = word_of_int (30 + uint (ch AND 0x0F) * uint (ch AND 0x0F) * 5)"
    by simp
  then show ?thesis
    by (simp only: repeat_interval_value)
qed

lemma uartISR_byte_msctrl:
  "ch AND KEYB_MSCTRL_MASK = KEYB_MSCTRL \<Longrightarrow>
   uartISR_byte ch s = s\<lparr>msctrlAsserted := (ch AND 0x01 = 0)\<rparr>"
  by (simp add: uartISR_byte_def)

lemma uartISR_byte_led_level:
  "ch AND KEYB_LED_BRIGHTNESS_MASK = KEYB_LED_BRIGHTNESS \<Longrightarrow>
   uartISR_byte ch s = s\<lparr>currentLedLevel := ch AND 0x03\<rparr>"
  using and_mask_narrow [of ch "0xFC" "0x54" "0xF8"]
  by (auto simp: uartISR_byte_def KEYB_MSCTRL_MASK_def KEYB_MSCTRL_def
      KEYB_LED_BRIGHTNESS_MASK_def KEYB_LED_BRIGHTNESS_def)

lemma uartISR_byte_repeat_delay:
  "ch AND KEYB_REPEAT_MASK = KEYB_REPEAT_DELAY \<Longrightarrow>
   uartISR_byte ch s = s\<lparr>keyRepeatDelay := word_of_int (200 + uint (ch AND 0x0F) * 100)\<rparr>"
  using and_mask_narrow [of ch "0xF8" "0x40" "0xF0"] and_mask_narrow [of ch "0xFC" "0x54" "0xF0"]
    and_mask_narrow [of ch "0xF8" "0x58" "0xF0"]
  by (auto simp: uartISR_byte_def KEYB_MSCTRL_MASK_def KEYB_MSCTRL_def
      KEYB_LED_BRIGHTNESS_MASK_def KEYB_LED_BRIGHTNESS_def KEYB_KEY_INHIBIT_MASK_def
      KEYB_KEY_INHIBIT_def KEYB_REPEAT_MASK_def KEYB_REPEAT_DELAY_def)

lemma uartISR_byte_repeat_interval:
  "ch AND KEYB_REPEAT_MASK = KEYB_REPEAT_INTERVAL \<Longrightarrow>
   uartISR_byte ch s =
     s\<lparr>keyRepeatInterval := word_of_int (30 + uint (ch AND 0x0F) * uint (ch AND 0x0F) * 5)\<rparr>"
  using and_mask_narrow [of ch "0xF8" "0x40" "0xF0"] and_mask_narrow [of ch "0xFC" "0x54" "0xF0"]
    and_mask_narrow [of ch "0xF8" "0x58" "0xF0"]
  by (auto simp: uartISR_byte_def KEYB_MSCTRL_MASK_def KEYB_MSCTRL_def
      KEYB_LED_BRIGHTNESS_MASK_def KEYB_LED_BRIGHTNESS_def KEYB_KEY_INHIBIT_MASK_def
      KEYB_KEY_INHIBIT_def KEYB_REPEAT_MASK_def KEYB_REPEAT_DELAY_def
      KEYB_REPEAT_INTERVAL_def Let_def uint_ucast_nibble)

lemma uartISR_byte_led_state:
  "ch AND KEYB_LED_CTRL_MASK = KEYB_LED_CTRL_MASK \<Longrightarrow>
   uartISR_byte ch s = s\<lparr>currentLedState := ch AND 0x7F\<rparr>"
  using and_mask_narrow [of ch "0xF8" "0x40" "0x80"] and_mask_narrow [of ch "0xFC" "0x54" "0x80"]
    and_mask_narrow [of ch "0xF8" "0x58" "0x80"] and_mask_narrow [of ch "0xF0" "0x60" "0x80"]
    and_mask_narrow [of ch "0xF0" "0x70" "0x80"]
  by (auto simp: uartISR_byte_def KEYB_MSCTRL_MASK_def KEYB_MSCTRL_def
      KEYB_LED_BRIGHTNESS_MASK_def KEYB_LED_BRIGHTNESS_def KEYB_KEY_INHIBIT_MASK_def
      KEYB_KEY_INHIBIT_def KEYB_REPEAT_MASK_def KEYB_REPEAT_DELAY_def
      KEYB_REPEAT_INTERVAL_def KEYB_LED_CTRL_MASK_def)

lemma config_after_tick:
  "msctrlAsserted (snd (processKeybAndMouse dt rx s)) = msctrlAsserted (uartISR rx s)"
  "currentLedLevel (snd (processKeybAndMouse dt rx s)) = currentLedLevel (uartISR rx s)"
  "currentLedState (snd (processKeybAndMouse dt rx s)) = currentLedState (uartISR rx s)"
  "keyRepeatDelay (snd (processKeybAndMouse dt rx s)) = keyRepeatDelay (uartISR rx s)"
  "keyRepeatInterval (snd (processKeybAndMouse dt rx s)) = keyRepeatInterval (uartISR rx s)"
  by (simp_all add: processKeybAndMouse_def Let_def case_prod_beta sendMouse_def)

lemma uartISR_snoc: "uartISR (rx @ [ch]) s = uartISR_byte ch (uartISR rx s)"
  by (induction rx arbitrary: s) simp_all

text \<open>
  Host command parsing is gated by nothing: in every state, and whatever was in the
  receive FIFO before it, the last byte that a turn of the main loop reads is decoded by
  the command table and stored.
\<close>

lemma host_commands_parsed_in_every_state:
  "(ch AND KEYB_MSCTRL_MASK = KEYB_MSCTRL \<longrightarrow>
      msctrlAsserted (snd (step (Tick dt (rx @ [ch])) s)) = (ch AND 0x01 = 0)) \<and>
   (ch AND KEYB_LED_BRIGHTNESS_MASK = KEYB_LED_BRIGHTNESS \<longrightarrow>
      currentLedLevel (snd (step (Tick dt (rx @ [ch])) s)) = ch AND 0x03) \<and>
   (ch AND KEYB_REPEAT_MASK = KEYB_REPEAT_DELAY \<longrightarrow>
      uint (keyRepeatDelay (snd (step (Tick dt (rx @ [ch])) s)))
        = 200 + uint (ch AND 0x0F) * 100) \<and>
   (ch AND KEYB_REPEAT_MASK = KEYB_REPEAT_INTERVAL \<longrightarrow>
      uint (keyRepeatInterval (snd (step (Tick dt (rx @ [ch])) s)))
        = 30 + uint (ch AND 0x0F) * uint (ch AND 0x0F) * 5) \<and>
   (ch AND KEYB_LED_CTRL_MASK = KEYB_LED_CTRL_MASK \<longrightarrow>
      currentLedState (snd (step (Tick dt (rx @ [ch])) s)) = ch AND 0x7F)"
  by (simp add: config_after_tick uartISR_snoc uartISR_byte_msctrl uartISR_byte_led_level
      uartISR_byte_repeat_delay uartISR_byte_repeat_interval uartISR_byte_led_state
      repeat_delay_value_nf repeat_interval_value_nf)

section \<open>The repeat state\<close>

lemma sint_ucast_u16: "sint (ucast (d :: u16) :: s32) = uint d"
proof -
  have "uint d < 65536"
    using uint_lt2p [of d] by simp
  then have "uint d < 2147483648"
    by linarith
  moreover have "- 2147483648 \<le> uint d"
    using uint_ge_0 [of d] by linarith
  ultimately have "signed_take_bit 31 (uint d) = uint d"
    by (intro signed_take_bit_int_eq_self) simp_all
  moreover have "uint (ucast d :: s32) = uint d"
    by (simp add: uint_up_ucast is_up)
  ultimately show ?thesis
    by (simp add: sint_uint)
qed

lemma sint_ucast_u16_pos: "d \<noteq> 0 \<Longrightarrow> 0 < sint (ucast (d :: u16) :: s32)"
proof -
  assume "d \<noteq> 0"
  then have "uint d \<noteq> 0"
    by (simp add: uint_0_iff)
  with uint_ge_0 [of d] have "0 < uint d"
    by linarith
  then show ?thesis
    by (simp only: sint_ucast_u16)
qed

lemma repeat_delay_nonzero: "(word_of_int (200 + uint ((ch :: u8) AND 0x0F) * 100) :: u16) \<noteq> 0"
proof
  assume "(word_of_int (200 + uint (ch AND 0x0F) * 100) :: u16) = 0"
  then have "uint (word_of_int (200 + uint (ch AND 0x0F) * 100) :: u16) = 0"
    by (simp only: uint_0_eq)
  then have "200 + uint (ch AND 0x0F) * 100 = 0"
    by (simp only: repeat_delay_value)
  with uint_ge_0 [of "ch AND 0x0F"] show False
    by linarith
qed

lemma repeat_interval_nonzero:
  "(word_of_int (30 + uint ((ch :: u8) AND 0x0F) * uint (ch AND 0x0F) * 5) :: u16) \<noteq> 0"
proof
  assume "(word_of_int (30 + uint (ch AND 0x0F) * uint (ch AND 0x0F) * 5) :: u16) = 0"
  then have "uint (word_of_int (30 + uint (ch AND 0x0F) * uint (ch AND 0x0F) * 5) :: u16) = 0"
    by (simp only: uint_0_eq)
  then have "30 + uint (ch AND 0x0F) * uint (ch AND 0x0F) * 5 = 0"
    by (simp only: repeat_interval_value)
  moreover have "0 \<le> uint (ch AND 0x0F) * uint (ch AND 0x0F)"
    by simp
  ultimately show False
    by linarith
qed

lemma config_ok_uartISR_byte: "config_ok s \<Longrightarrow> config_ok (uartISR_byte ch s)"
  using repeat_delay_nonzero [of ch] repeat_interval_nonzero [of ch]
  by (simp only: uartISR_byte_def config_ok_def Let_def uint_ucast_nibble
      x68k.simps split: if_splits) simp

lemma config_ok_uartISR: "config_ok s \<Longrightarrow> config_ok (uartISR rx s)"
  by (induction rx arbitrary: s) (simp_all add: config_ok_uartISR_byte)

lemma repeat_uartISR_byte:
  "keyRepeatKeyCode (uartISR_byte ch s) = keyRepeatKeyCode s"
  "keyRepeatCountdown (uartISR_byte ch s) = keyRepeatCountdown s"
  by (simp_all add: uartISR_byte_def Let_def)

lemma repeat_uartISR:
  "keyRepeatKeyCode (uartISR rx s) = keyRepeatKeyCode s \<and>
   keyRepeatCountdown (uartISR rx s) = keyRepeatCountdown s"
  by (induction rx arbitrary: s) (simp_all add: repeat_uartISR_byte)

lemma inv_uartISR: "bridge_inv s \<Longrightarrow> bridge_inv (uartISR rx s)"
  using repeat_uartISR [of rx s] config_ok_uartISR [of s rx]
  by (simp add: bridge_inv_def repeat_ok_def)

lemma inv_sendMouse: "bridge_inv s \<Longrightarrow> bridge_inv (snd (sendMouse s))"
  by (simp add: sendMouse_def Let_def bridge_inv_def repeat_ok_def config_ok_def)

lemma inv_arm:
  "bridge_inv s \<Longrightarrow> keyCode \<noteq> 0 \<Longrightarrow>
   bridge_inv (s\<lparr>keyRepeatKeyCode := keyCode, keyRepeatCountdown := ucast (keyRepeatDelay s)\<rparr>)"
  by (simp add: bridge_inv_def repeat_ok_def config_ok_def sint_ucast_u16_pos)

lemma inv_disarm:
  "bridge_inv s \<Longrightarrow> bridge_inv (s\<lparr>keyRepeatKeyCode := 0, keyRepeatCountdown := 0\<rparr>)"
  by (simp add: bridge_inv_def repeat_ok_def config_ok_def)

lemma inv_compareKeybSlots:
  "bridge_inv s \<Longrightarrow> bridge_inv (snd (compareKeybSlots slots reportB mk s))"
proof (induction slots arbitrary: s)
  case Nil
  then show ?case by simp
next
  case (Cons keyCode slots)
  show ?case
  proof (cases "keyCode = HID_KEY_NONE \<or> keyCode \<le> 0x03 \<or> isPresentInReport reportB keyCode")
    case True
    with Cons show ?thesis by auto
  next
    case False
    then have "keyCode \<noteq> 0"
      by (simp add: HID_KEY_NONE_def)
    with Cons.prems False Cons.IH show ?thesis
      by (simp add: Let_def case_prod_beta inv_arm inv_disarm)
  qed
qed

lemma inv_processKeybReport: "bridge_inv s \<Longrightarrow> bridge_inv (snd (processKeybReport report s))"
proof -
  assume "bridge_inv s"
  then have "bridge_inv (snd (compareKeybReports report
      (prevReport (snd (compareKeybReports (prevReport s) report False s))) True
      (snd (compareKeybReports (prevReport s) report False s))))"
    by (simp add: compareKeybReports_def inv_compareKeybSlots)
  then show ?thesis
    by (simp add: processKeybReport_def Let_def case_prod_beta bridge_inv_def repeat_ok_def
        config_ok_def)
qed

lemma inv_processMouseReport: "bridge_inv s \<Longrightarrow> bridge_inv (processMouseReport report s)"
  by (simp add: processMouseReport_def bridge_inv_def repeat_ok_def config_ok_def)

lemma inv_gpioISR: "bridge_inv s \<Longrightarrow> bridge_inv (snd (gpioISR gpio falling s))"
  using inv_sendMouse [of s]
  by (simp add: gpioISR_def) (simp add: bridge_inv_def repeat_ok_def config_ok_def)

lemma inv_processKeybAndMouse:
  "bridge_inv s \<Longrightarrow> bridge_inv (snd (processKeybAndMouse deltaTime rx s))"
proof -
  assume "bridge_inv s"
  then have u: "bridge_inv (uartISR rx s)"
    by (rule inv_uartISR)
  then have "bridge_inv (snd (sendMouse (uartISR rx s)))"
    by (rule inv_sendMouse)
  with u show ?thesis
    by (auto simp: processKeybAndMouse_def Let_def case_prod_beta bridge_inv_def repeat_ok_def
        config_ok_def sint_ucast_u16_pos)
qed

lemma inv_step: "bridge_inv s \<Longrightarrow> bridge_inv (snd (step ev s))"
  by (cases ev)
    (simp_all add: inv_processKeybReport inv_processMouseReport inv_processKeybAndMouse
      inv_gpioISR)

lemma inv_run: "bridge_inv s \<Longrightarrow> bridge_inv (snd (run evs s))"
  by (induction evs arbitrary: s) (simp_all add: Let_def case_prod_beta inv_step)

lemma inv_init: "bridge_inv x68k_init"
  by (simp add: bridge_inv_def repeat_ok_def config_ok_def x68k_init_def)

lemma state_A_armed_eq:
  "state_A_armed = x68k_init\<lparr>prevReport := report_A, keyRepeatKeyCode := 0x04,
     keyRepeatCountdown := 500\<rparr>"
  by (simp add: state_A_armed_def x68k_init_def processKeybReport_def compareKeybReports_def
      zeroReport_def report_A_def isPresentInReport_def HID_KEY_NONE_def Let_def)

lemma state_App_armed_eq:
  "state_App_armed = x68k_init\<lparr>prevReport := report_App, keyRepeatKeyCode := 0x65,
     keyRepeatCountdown := 500\<rparr>"
  by (simp add: state_App_armed_def x68k_init_def processKeybReport_def compareKeybReports_def
      zeroReport_def report_App_def isPresentInReport_def HID_KEY_NONE_def Let_def)

text \<open>
  C10. After any sequence of events from the boot state (keyboard reports, mouse
  reports, turns of the main loop with their host command bytes, GPIO interrupts) the
  repeat state has one of the two shapes: the key code and the countdown are both zero,
  or the key code is not zero and the countdown is positive. The countdown is never
  negative.
\<close>

theorem repeat_state_shape:
  "repeat_ok (snd (run evs x68k_init)) \<and>
   0 \<le> sint (keyRepeatCountdown (snd (run evs x68k_init)))"
  using inv_run [OF inv_init, of evs]
  by (auto simp: bridge_inv_def repeat_ok_def)

theorem repeat_state_shape_witness:
  "repeat_ok (snd (run [KeybReport report_A, Tick 500 []] x68k_init)) \<and>
   keyRepeatKeyCode (snd (run [KeybReport report_A, Tick 500 []] x68k_init)) = 0x04 \<and>
   keyRepeatCountdown (snd (run [KeybReport report_A, Tick 500 []] x68k_init)) = 110"
proof -
  have "snd (run [KeybReport report_A, Tick 500 []] x68k_init)
      = snd (step (Tick 500 []) state_A_armed)"
    by (simp add: state_A_armed_def Let_def case_prod_beta)
  then have "keyRepeatKeyCode (snd (run [KeybReport report_A, Tick 500 []] x68k_init)) = 0x04"
    "keyRepeatCountdown (snd (run [KeybReport report_A, Tick 500 []] x68k_init)) = 110"
    by (simp_all add: state_A_armed_eq processKeybAndMouse_def x68k_init_def Let_def)
  with repeat_state_shape [of "[KeybReport report_A, Tick 500 []]"] show ?thesis
    by simp
qed

section \<open>The diff engine and the repeat timer\<close>

lemma keyb_bytes_sendMouse: "keyb_bytes (fst (sendMouse s)) = []"
  by (simp add: sendMouse_def Let_def MouseData_data_def)

lemma repeat_sendMouse:
  "keyRepeatKeyCode (snd (sendMouse s)) = keyRepeatKeyCode s"
  "keyRepeatCountdown (snd (sendMouse s)) = keyRepeatCountdown s"
  "keyRepeatInterval (snd (sendMouse s)) = keyRepeatInterval s"
  by (simp_all add: sendMouse_def Let_def)

lemma translatable_iff:
  "(\<not> (k < HID_KEY_A \<or> uint k - uint HID_KEY_A \<ge> int (length keycodeScans)))
     = (HID_KEY_A \<le> k \<and> k \<le> 0x64)"
  by (auto simp: HID_KEY_A_def keycodeScans_def word_le_def word_less_def)

lemma sendKeycode_translatable:
  "HID_KEY_A \<le> k \<Longrightarrow> k \<le> 0x64 \<Longrightarrow>
   sendKeycode k mk =
     [KeybTx (keycodeScans ! nat (uint k - uint HID_KEY_A) OR (if mk then 0x00 else 0x80)),
      FlashActivityLED 100]"
  using translatable_iff [of k] by (simp add: sendKeycode_def Let_def)

lemma sendKeycode_untranslatable:
  "\<not> (HID_KEY_A \<le> k \<and> k \<le> 0x64) \<Longrightarrow> sendKeycode k mk = []"
  using translatable_iff [of k] by (simp add: sendKeycode_def Let_def)

lemma keycodeScans_7bit: "\<forall>b \<in> set keycodeScans. \<not> bit b 7 \<and> b \<notin> set modifierScans"
  by (simp add: keycodeScans_def modifierScans_def)

lemma scan_of_translatable:
  "HID_KEY_A \<le> k \<Longrightarrow> k \<le> 0x64 \<Longrightarrow>
   keycodeScans ! nat (uint k - uint HID_KEY_A) \<in> set keycodeScans"
proof -
  assume "HID_KEY_A \<le> k" "k \<le> 0x64"
  then have "\<not> int (length keycodeScans) \<le> uint k - uint HID_KEY_A"
    using translatable_iff [of k] by auto
  then have "nat (uint k - uint HID_KEY_A) < length keycodeScans"
    by (simp add: keycodeScans_def)
  then show ?thesis
    by (rule nth_mem)
qed

lemma tick_repeat:
  "keyRepeatCountdown s \<noteq> 0 \<Longrightarrow>
   keyb_bytes (fst (processKeybAndMouse dt rx s)) =
     (if sint (keyRepeatCountdown s - dt) \<le> 0
      then keyb_bytes (sendKeycode (keyRepeatKeyCode s) True) else []) \<and>
   keyRepeatCountdown (snd (processKeybAndMouse dt rx s)) =
     (if sint (keyRepeatCountdown s - dt) \<le> 0
      then ucast (keyRepeatInterval (snd (processKeybAndMouse dt rx s)))
      else keyRepeatCountdown s - dt) \<and>
   keyRepeatKeyCode (snd (processKeybAndMouse dt rx s)) = keyRepeatKeyCode s"
  using repeat_uartISR [of rx s]
  by (simp add: processKeybAndMouse_def Let_def case_prod_beta keyb_bytes_append
      keyb_bytes_sendMouse repeat_sendMouse)

lemma tick_disarmed:
  "keyRepeatCountdown s = 0 \<Longrightarrow>
   keyb_bytes (fst (processKeybAndMouse dt rx s)) = [] \<and>
   keyRepeatCountdown (snd (processKeybAndMouse dt rx s)) = 0 \<and>
   keyRepeatKeyCode (snd (processKeybAndMouse dt rx s)) = keyRepeatKeyCode s"
  using repeat_uartISR [of rx s]
  by (simp add: processKeybAndMouse_def Let_def case_prod_beta keyb_bytes_append
      keyb_bytes_sendMouse repeat_sendMouse)

lemma countdown_no_wrap:
  "0 < sint (c :: s32) \<Longrightarrow> uint (dt :: u32) < 2147483648 \<Longrightarrow> sint (c - dt) = sint c - uint dt"
proof -
  assume c: "0 < sint c" and d: "uint dt < 2147483648"
  have "- 2147483648 \<le> uint dt"
    using uint_ge_0 [of dt] by linarith
  with d have "signed_take_bit 31 (uint dt) = uint dt"
    by (intro signed_take_bit_int_eq_self) simp_all
  then have s: "sint dt = uint dt"
    by (simp add: sint_uint)
  have "sint c < 2147483648"
    using sint_lt [of c] by simp
  with c d uint_ge_0 [of dt] have "- 2147483648 \<le> sint c - uint dt" "sint c - uint dt < 2147483648"
    by linarith+
  then have "signed_take_bit 31 (sint c - uint dt) = sint c - uint dt"
    by (intro signed_take_bit_int_eq_self) simp_all
  with s show ?thesis
    by (simp add: sint_word_diff word_size)
qed

lemma isPresentIn_set: "isPresentIn ks keyCode = (keyCode \<in> set ks)"
  by (induction ks) auto

lemma isPresentInReport_set: "isPresentInReport report keyCode = (keyCode \<in> set (keycode report))"
  by (simp add: isPresentInReport_def isPresentIn_set)

lemma sentinel_iff: "(keyCode = HID_KEY_NONE \<or> keyCode \<le> 0x03) = (\<not> 0x03 < (keyCode :: u8))"
  by (auto simp: HID_KEY_NONE_def not_less)

lemma compareKeybSlots_out:
  "fst (compareKeybSlots slots reportB mk s) =
     concat (map (\<lambda>k. sendKeycode k mk)
       (filter (\<lambda>k. 0x03 < k \<and> k \<notin> set (keycode reportB)) slots))"
  by (induction slots arbitrary: s)
    (simp_all add: sentinel_iff isPresentInReport_set Let_def case_prod_beta)

lemma prevReport_compareKeybSlots:
  "prevReport (snd (compareKeybSlots slots reportB mk s)) = prevReport s"
  by (induction slots arbitrary: s) (simp_all add: Let_def case_prod_beta)

lemma break_pass_state:
  "snd (compareKeybSlots slots reportB False s) =
     (if keyRepeatKeyCode s \<in> set (filter (\<lambda>k. 0x03 < k \<and> k \<notin> set (keycode reportB)) slots)
      then s\<lparr>keyRepeatKeyCode := 0, keyRepeatCountdown := 0\<rparr> else s)"
proof (induction slots arbitrary: s)
  case Nil
  show ?case by simp
next
  case (Cons k slots)
  let ?P = "\<lambda>k. 0x03 < k \<and> k \<notin> set (keycode reportB)"
  let ?clear = "s\<lparr>keyRepeatKeyCode := 0, keyRepeatCountdown := 0\<rparr>"
  consider "\<not> ?P k" | "?P k" "keyRepeatKeyCode s = k" | "?P k" "keyRepeatKeyCode s \<noteq> k"
    by blast
  then show ?case
  proof cases
    case 1
    then have c: "compareKeybSlots (k # slots) reportB False s
        = compareKeybSlots slots reportB False s"
      by (simp add: sentinel_iff isPresentInReport_set)
    from 1 have f: "filter ?P (k # slots) = filter ?P slots"
      by simp
    show ?thesis
      unfolding c f by (rule Cons.IH)
  next
    case 2
    then have "snd (compareKeybSlots (k # slots) reportB False s)
        = snd (compareKeybSlots slots reportB False ?clear)"
      by (simp add: sentinel_iff isPresentInReport_set Let_def case_prod_beta)
    also have "\<dots> = ?clear"
      by (simp only: Cons.IH [of ?clear]) simp
    finally have c: "snd (compareKeybSlots (k # slots) reportB False s) = ?clear" .
    from 2 have "keyRepeatKeyCode s \<in> set (filter ?P (k # slots))"
      by simp
    with c show ?thesis
      by (simp only: if_True)
  next
    case 3
    then have c: "snd (compareKeybSlots (k # slots) reportB False s)
        = snd (compareKeybSlots slots reportB False s)"
      by (simp add: sentinel_iff isPresentInReport_set Let_def case_prod_beta)
    from 3 have "(keyRepeatKeyCode s \<in> set (filter ?P (k # slots)))
        = (keyRepeatKeyCode s \<in> set (filter ?P slots))"
      by auto
    then show ?thesis
      by (simp only: c Cons.IH [of s])
  qed
qed

lemma make_pass_state:
  "snd (compareKeybSlots slots reportB True s) =
     (if filter (\<lambda>k. 0x03 < k \<and> k \<notin> set (keycode reportB)) slots = [] then s
      else s\<lparr>keyRepeatKeyCode := last (filter (\<lambda>k. 0x03 < k \<and> k \<notin> set (keycode reportB)) slots),
             keyRepeatCountdown := ucast (keyRepeatDelay s)\<rparr>)"
  by (induction slots arbitrary: s)
    (auto simp: sentinel_iff isPresentInReport_set Let_def case_prod_beta)

lemma processKeybReport_out:
  "fst (processKeybReport report s) =
     (if modifier (prevReport s) XOR modifier report \<noteq> 0
      then modifierPass [0..<8] (modifier (prevReport s) XOR modifier report) report else []) @
     concat (map (\<lambda>k. sendKeycode k False)
       (filter (\<lambda>k. 0x03 < k \<and> k \<notin> set (keycode report)) (keycode (prevReport s)))) @
     concat (map (\<lambda>k. sendKeycode k True)
       (filter (\<lambda>k. 0x03 < k \<and> k \<notin> set (keycode (prevReport s))) (keycode report)))"
  by (simp add: processKeybReport_def compareKeybReports_def Let_def case_prod_beta
      compareKeybSlots_out prevReport_compareKeybSlots)

lemma prevReport_processKeybReport: "prevReport (snd (processKeybReport report s)) = report"
  by (simp add: processKeybReport_def Let_def case_prod_beta)

lemma break_clears_armed_key:
  "0x03 < keyRepeatKeyCode s \<Longrightarrow>
   isPresentInReport (prevReport s) (keyRepeatKeyCode s) \<Longrightarrow>
   \<not> isPresentInReport report (keyRepeatKeyCode s) \<Longrightarrow>
   keyRepeatKeyCode (snd (compareKeybReports (prevReport s) report False s)) = 0 \<and>
   keyRepeatCountdown (snd (compareKeybReports (prevReport s) report False s)) = 0 \<and>
   keyRepeatKeyCode (snd (processKeybReport report s)) \<noteq> keyRepeatKeyCode s"
proof -
  let ?K = "keyRepeatKeyCode s"
  let ?new = "filter (\<lambda>k. 0x03 < k \<and> k \<notin> set (keycode (prevReport s))) (keycode report)"
  assume K: "0x03 < ?K" "isPresentInReport (prevReport s) ?K" "\<not> isPresentInReport report ?K"
  then have b: "snd (compareKeybReports (prevReport s) report False s)
      = s\<lparr>keyRepeatKeyCode := 0, keyRepeatCountdown := 0\<rparr>"
    by (simp add: compareKeybReports_def break_pass_state isPresentInReport_set)
  have "?K \<noteq> 0"
    using K(1) by auto
  moreover have "?new \<noteq> [] \<Longrightarrow> last ?new \<noteq> ?K"
  proof -
    assume "?new \<noteq> []"
    then have "last ?new \<in> set ?new"
      by (rule last_in_set)
    with K(3) show ?thesis
      by (auto simp: isPresentInReport_set)
  qed
  ultimately have "keyRepeatKeyCode (snd (processKeybReport report s)) \<noteq> ?K"
    by (simp add: processKeybReport_def Let_def case_prod_beta b)
      (simp add: compareKeybReports_def make_pass_state)
  with b show ?thesis
    by simp
qed

lemma keyb_bytes_sendKeycode_make:
  "keyb_bytes (sendKeycode k True) =
     (if HID_KEY_A \<le> k \<and> k \<le> 0x64 then [keycodeScans ! nat (uint k - uint HID_KEY_A)] else [])"
  using sendKeycode_translatable [of k True] sendKeycode_untranslatable [of k True]
  by auto

text \<open>
  C8, as the source has it. The report that presses the Application key (0x65) arms the
  repeat timer with a keycode that \<^verbatim>\<open>sendKeycode\<close> drops. On the turn of the main
  loop that takes the countdown to zero nothing is done to the keyboard UART, and the
  countdown is reloaded.
\<close>

theorem repeat_untranslatable_counterexample:
  "keyRepeatKeyCode state_App_armed = 0x65 \<and>
   sint (keyRepeatCountdown state_App_armed) = 500 \<and>
   sint (keyRepeatCountdown state_App_armed - 500) \<le> 0 \<and>
   fst (step (Tick 500 []) state_App_armed) = [] \<and>
   keyRepeatCountdown (snd (step (Tick 500 []) state_App_armed)) = 110"
  by (simp add: state_App_armed_eq x68k_init_def processKeybAndMouse_def Let_def
      sendKeycode_def HID_KEY_A_def keycodeScans_def)

text \<open>
  C8, amended. On a turn of the main loop with \<open>dt\<close> elapsed milliseconds and a
  positive countdown, the countdown is decremented by \<open>dt\<close> (in 32-bit arithmetic,
  exactly so for \<open>dt\<close> below \<open>2 ^ 31\<close>). If the result is at most zero, the make
  scancode of the armed key code is written when the key code is one of the translation
  table (0x04 to 0x64), and nothing is written otherwise; in both cases the countdown
  is set to the repeat interval. If the result is positive nothing is written. In the
  disarmed state nothing is written and the repeat state stays disarmed. When the break
  pass meets the armed key code (it is in the previous report and not in the new one),
  it disarms the timer, and after the report the armed key code is another.
\<close>

theorem repeat_timer_behaviour:
  "(0 < sint (keyRepeatCountdown s) \<longrightarrow>
      (sint (keyRepeatCountdown s - dt) \<le> 0 \<longrightarrow>
         keyb_bytes (fst (step (Tick dt rx) s)) =
           (if HID_KEY_A \<le> keyRepeatKeyCode s \<and> keyRepeatKeyCode s \<le> 0x64
            then [keycodeScans ! nat (uint (keyRepeatKeyCode s) - uint HID_KEY_A)] else []) \<and>
         keyRepeatCountdown (snd (step (Tick dt rx) s)) =
           ucast (keyRepeatInterval (snd (step (Tick dt rx) s)))) \<and>
      (0 < sint (keyRepeatCountdown s - dt) \<longrightarrow>
         keyb_bytes (fst (step (Tick dt rx) s)) = [] \<and>
         keyRepeatCountdown (snd (step (Tick dt rx) s)) = keyRepeatCountdown s - dt) \<and>
      (uint dt < 2147483648 \<longrightarrow>
         sint (keyRepeatCountdown s - dt) = sint (keyRepeatCountdown s) - uint dt) \<and>
      (HID_KEY_A \<le> keyRepeatKeyCode s \<and> keyRepeatKeyCode s \<le> 0x64 \<longrightarrow>
         \<not> bit (keycodeScans ! nat (uint (keyRepeatKeyCode s) - uint HID_KEY_A)) 7)) \<and>
   (keyRepeatKeyCode s = 0 \<and> keyRepeatCountdown s = 0 \<longrightarrow>
      keyb_bytes (fst (step (Tick dt rx) s)) = [] \<and>
      keyRepeatKeyCode (snd (step (Tick dt rx) s)) = 0 \<and>
      keyRepeatCountdown (snd (step (Tick dt rx) s)) = 0) \<and>
   (0x03 < keyRepeatKeyCode s \<and> isPresentInReport (prevReport s) (keyRepeatKeyCode s) \<and>
    \<not> isPresentInReport report (keyRepeatKeyCode s) \<longrightarrow>
      keyRepeatKeyCode (snd (compareKeybReports (prevReport s) report False s)) = 0 \<and>
      keyRepeatCountdown (snd (compareKeybReports (prevReport s) report False s)) = 0 \<and>
      keyRepeatKeyCode (snd (step (KeybReport report) s)) \<noteq> keyRepeatKeyCode s)"
proof (intro conjI impI)
  assume c: "0 < sint (keyRepeatCountdown s)"
  then have n: "keyRepeatCountdown s \<noteq> 0"
    by auto
  {
    assume "sint (keyRepeatCountdown s - dt) \<le> 0"
    with tick_repeat [OF n, of dt rx]
    show "keyb_bytes (fst (step (Tick dt rx) s)) =
        (if HID_KEY_A \<le> keyRepeatKeyCode s \<and> keyRepeatKeyCode s \<le> 0x64
         then [keycodeScans ! nat (uint (keyRepeatKeyCode s) - uint HID_KEY_A)] else [])"
      and "keyRepeatCountdown (snd (step (Tick dt rx) s)) =
        ucast (keyRepeatInterval (snd (step (Tick dt rx) s)))"
      by (simp_all add: keyb_bytes_sendKeycode_make)
  }
  {
    assume "0 < sint (keyRepeatCountdown s - dt)"
    with tick_repeat [OF n, of dt rx]
    show "keyb_bytes (fst (step (Tick dt rx) s)) = []"
      and "keyRepeatCountdown (snd (step (Tick dt rx) s)) = keyRepeatCountdown s - dt"
      by simp_all
  }
  {
    assume "uint dt < 2147483648"
    with c show "sint (keyRepeatCountdown s - dt) = sint (keyRepeatCountdown s) - uint dt"
      by (rule countdown_no_wrap)
  }
  {
    assume "HID_KEY_A \<le> keyRepeatKeyCode s \<and> keyRepeatKeyCode s \<le> 0x64"
    then have "keycodeScans ! nat (uint (keyRepeatKeyCode s) - uint HID_KEY_A) \<in> set keycodeScans"
      by (intro scan_of_translatable) simp_all
    with keycodeScans_7bit
    show "\<not> bit (keycodeScans ! nat (uint (keyRepeatKeyCode s) - uint HID_KEY_A)) 7"
      by blast
  }
next
  assume "keyRepeatKeyCode s = 0 \<and> keyRepeatCountdown s = 0"
  with tick_disarmed [of s dt rx]
  show "keyb_bytes (fst (step (Tick dt rx) s)) = []"
    and "keyRepeatKeyCode (snd (step (Tick dt rx) s)) = 0"
    and "keyRepeatCountdown (snd (step (Tick dt rx) s)) = 0"
    by simp_all
next
  assume "0x03 < keyRepeatKeyCode s \<and> isPresentInReport (prevReport s) (keyRepeatKeyCode s) \<and>
    \<not> isPresentInReport report (keyRepeatKeyCode s)"
  with break_clears_armed_key [of s report]
  show "keyRepeatKeyCode (snd (compareKeybReports (prevReport s) report False s)) = 0"
    and "keyRepeatCountdown (snd (compareKeybReports (prevReport s) report False s)) = 0"
    and "keyRepeatKeyCode (snd (step (KeybReport report) s)) \<noteq> keyRepeatKeyCode s"
    by simp_all
qed

theorem repeat_timer_behaviour_witness:
  "0 < sint (keyRepeatCountdown state_A_armed) \<and>
   sint (keyRepeatCountdown state_A_armed - 500) \<le> 0 \<and>
   keyb_bytes (fst (step (Tick 500 []) state_A_armed)) = [0x1E] \<and>
   keyRepeatCountdown (snd (step (Tick 500 []) state_A_armed)) = 110 \<and>
   0 < sint (keyRepeatCountdown state_A_armed - 100) \<and>
   keyb_bytes (fst (step (Tick 100 []) state_A_armed)) = [] \<and>
   keyRepeatCountdown (snd (step (Tick 100 []) state_A_armed)) = 400 \<and>
   keyRepeatKeyCode x68k_init = 0 \<and> keyRepeatCountdown x68k_init = 0 \<and>
   keyb_bytes (fst (step (Tick 500 []) x68k_init)) = [] \<and>
   0x03 < keyRepeatKeyCode state_A_armed \<and>
   isPresentInReport (prevReport state_A_armed) (keyRepeatKeyCode state_A_armed) \<and>
   \<not> isPresentInReport zeroReport (keyRepeatKeyCode state_A_armed) \<and>
   keyRepeatKeyCode (snd (compareKeybReports (prevReport state_A_armed) zeroReport False
     state_A_armed)) = 0 \<and>
   keyRepeatKeyCode (snd (step (KeybReport zeroReport) state_A_armed)) \<noteq> 0x04"
proof -
  have a: "keyRepeatKeyCode state_A_armed = 0x04" "keyRepeatCountdown state_A_armed = 500"
    "prevReport state_A_armed = report_A" "keyRepeatInterval state_A_armed = 110"
    by (simp_all add: state_A_armed_eq x68k_init_def)
  have i: "keyRepeatKeyCode x68k_init = 0 \<and> keyRepeatCountdown x68k_init = 0"
    by (simp add: x68k_init_def)
  have p: "isPresentInReport report_A 0x04" "\<not> isPresentInReport zeroReport 0x04"
    by (simp_all add: isPresentInReport_def report_A_def zeroReport_def)
  have t: "keyRepeatInterval (snd (step (Tick 500 []) state_A_armed)) = 110"
    by (simp add: config_after_tick a)
  have k: "keycodeScans ! nat (uint (0x04 :: u8) - uint HID_KEY_A) = 0x1E"
    by (simp add: keycodeScans_def HID_KEY_A_def)
  from repeat_timer_behaviour [of state_A_armed 500 "[]" zeroReport]
    repeat_timer_behaviour [of state_A_armed 100 "[]" zeroReport]
    repeat_timer_behaviour [of x68k_init 500 "[]" zeroReport] a i p t k
  show ?thesis
    by (simp add: HID_KEY_A_def)
qed

section \<open>Make and break balance\<close>

lemma key_makes_append: "key_makes (as @ bs) = key_makes as + key_makes bs"
  by (simp add: key_makes_def keyb_bytes_append)

lemma key_breaks_append: "key_breaks (as @ bs) = key_breaks as + key_breaks bs"
  by (simp add: key_breaks_def keyb_bytes_append)

lemma key_makes_Nil: "key_makes [] = {#}"
  by (simp add: key_makes_def)

lemma key_breaks_Nil: "key_breaks [] = {#}"
  by (simp add: key_breaks_def)

lemma scan_flag_facts:
  "\<forall>b \<in> set keycodeScans \<union> set modifierScans.
     \<not> bit b 7 \<and> bit (b OR 0x80) 7 \<and> (b OR 0x80) AND 0x7F = b"
  by (simp add: keycodeScans_def modifierScans_def)

lemma modifier_byte_ignored:
  "i < 8 \<Longrightarrow>
   key_makes [KeybTx (modifierScans ! i OR (if mk then 0x00 else 0x80)), FlashActivityLED 100] = {#} \<and>
   key_breaks [KeybTx (modifierScans ! i OR (if mk then 0x00 else 0x80)), FlashActivityLED 100] = {#}"
proof -
  assume "i < 8"
  then have "modifierScans ! i \<in> set modifierScans"
    by (intro nth_mem) (simp add: modifierScans_def)
  with scan_flag_facts show ?thesis
    by (auto simp: key_makes_def key_breaks_def)
qed

lemma modifierPass_ignored:
  "\<forall>i \<in> set bits. i < 8 \<Longrightarrow>
   key_makes (modifierPass bits modified report) = {#} \<and>
   key_breaks (modifierPass bits modified report) = {#}"
proof (induction bits)
  case Nil
  show ?case by (simp add: key_makes_Nil key_breaks_Nil)
next
  case (Cons i bits)
  then have "i < 8" by simp
  from modifier_byte_ignored [OF this] Cons show ?case
    by (simp add: Let_def key_makes_append key_breaks_append key_makes_Nil key_breaks_Nil)
qed

lemma sendKeycode_makes_breaks:
  "key_makes (sendKeycode k True) = (if translatable k then {#scan_of k#} else {#})"
  "key_breaks (sendKeycode k True) = {#}"
  "key_makes (sendKeycode k False) = {#}"
  "key_breaks (sendKeycode k False) = (if translatable k then {#scan_of k#} else {#})"
proof -
  have "translatable k \<Longrightarrow> scan_of k \<in> set keycodeScans"
    unfolding translatable_def scan_of_def by (intro scan_of_translatable) simp_all
  with scan_flag_facts keycodeScans_7bit
  have f: "translatable k \<Longrightarrow> \<not> bit (scan_of k) 7 \<and> bit (scan_of k OR 0x80) 7 \<and>
      (scan_of k OR 0x80) AND 0x7F = scan_of k \<and> scan_of k \<notin> set modifierScans"
    by auto
  have s: "sendKeycode k mk =
      (if translatable k
       then [KeybTx (scan_of k OR (if mk then 0x00 else 0x80)), FlashActivityLED 100] else [])" for mk
    using sendKeycode_translatable [of k mk] sendKeycode_untranslatable [of k mk]
    by (simp add: translatable_def scan_of_def)
  show "key_makes (sendKeycode k True) = (if translatable k then {#scan_of k#} else {#})"
    "key_breaks (sendKeycode k True) = {#}"
    "key_makes (sendKeycode k False) = {#}"
    "key_breaks (sendKeycode k False) = (if translatable k then {#scan_of k#} else {#})"
    using f by (simp_all add: s key_makes_def key_breaks_def)
qed

lemma concat_sendKeycode_makes_breaks:
  "key_makes (concat (map (\<lambda>k. sendKeycode k True) ks)) = image_mset scan_of (mset (filter translatable ks))"
  "key_breaks (concat (map (\<lambda>k. sendKeycode k True) ks)) = {#}"
  "key_makes (concat (map (\<lambda>k. sendKeycode k False) ks)) = {#}"
  "key_breaks (concat (map (\<lambda>k. sendKeycode k False) ks)) = image_mset scan_of (mset (filter translatable ks))"
  by (induction ks)
    (simp_all add: key_makes_append key_breaks_append key_makes_Nil key_breaks_Nil
      sendKeycode_makes_breaks)

lemma translatable_gt3: "translatable k \<Longrightarrow> 0x03 < k"
  by (auto simp: translatable_def HID_KEY_A_def word_le_def word_less_def)

lemma filter_translatable_new:
  "filter translatable (filter (\<lambda>k. 0x03 < k \<and> k \<notin> set (keycode reportB)) ks)
     = filter (\<lambda>k. k \<notin> set (filter translatable (pressed reportB)))
         (filter translatable (filter (\<lambda>k. 0x03 < k) ks))"
  by (induction ks) (auto simp: pressed_def translatable_gt3)

lemma mset_diff_balance:
  "distinct xs \<Longrightarrow> distinct ys \<Longrightarrow>
   mset (filter (\<lambda>k. k \<notin> set ys) xs) + mset ys = mset (filter (\<lambda>k. k \<notin> set xs) ys) + mset xs"
  by (rule multiset_eqI) (auto simp: count_mset count_list_0_iff distinct_count_atmost_1)

lemma step_balance:
  assumes "distinct (pressed (prevReport s))" "distinct (pressed report)"
  shows "key_makes (fst (processKeybReport report s))
           + image_mset scan_of (mset (filter translatable (pressed (prevReport s))))
       = key_breaks (fst (processKeybReport report s))
           + image_mset scan_of (mset (filter translatable (pressed report)))"
proof -
  let ?X = "filter translatable (pressed report)"
  let ?Y = "filter translatable (pressed (prevReport s))"
  have "key_makes (fst (processKeybReport report s))
      = image_mset scan_of (mset (filter translatable
          (filter (\<lambda>k. 0x03 < k \<and> k \<notin> set (keycode (prevReport s))) (keycode report))))"
    using modifierPass_ignored [of "[0..<8]"]
    by (simp add: processKeybReport_out key_makes_append key_makes_Nil
        concat_sendKeycode_makes_breaks)
  then have m: "key_makes (fst (processKeybReport report s))
      = image_mset scan_of (mset (filter (\<lambda>k. k \<notin> set ?Y) ?X))"
    by (simp only: filter_translatable_new pressed_def)
  have "key_breaks (fst (processKeybReport report s))
      = image_mset scan_of (mset (filter translatable
          (filter (\<lambda>k. 0x03 < k \<and> k \<notin> set (keycode report)) (keycode (prevReport s)))))"
    using modifierPass_ignored [of "[0..<8]"]
    by (simp add: processKeybReport_out key_breaks_append key_breaks_Nil
        concat_sendKeycode_makes_breaks)
  then have b: "key_breaks (fst (processKeybReport report s))
      = image_mset scan_of (mset (filter (\<lambda>k. k \<notin> set ?X) ?Y))"
    by (simp only: filter_translatable_new pressed_def)
  from assms have "distinct ?X" "distinct ?Y"
    by simp_all
  then have "mset (filter (\<lambda>k. k \<notin> set ?Y) ?X) + mset ?Y
      = mset (filter (\<lambda>k. k \<notin> set ?X) ?Y) + mset ?X"
    by (rule mset_diff_balance)
  then have "image_mset scan_of (mset (filter (\<lambda>k. k \<notin> set ?Y) ?X) + mset ?Y)
      = image_mset scan_of (mset (filter (\<lambda>k. k \<notin> set ?X) ?Y) + mset ?X)"
    by (rule arg_cong)
  with m b show ?thesis
    by (simp only: image_mset_union)
qed

lemma balance_chain:
  fixes a1 a2 b1 b2 p0 pr pz :: "'a multiset"
  assumes "a1 + p0 = b1 + pr" "a2 + pr = b2 + pz"
  shows "(a1 + a2) + p0 = (b1 + b2) + pz"
proof -
  have "(a1 + a2) + p0 = (a1 + p0) + a2"
    by (simp only: ac_simps)
  also have "\<dots> = b1 + (a2 + pr)"
    by (simp only: assms(1) ac_simps)
  also have "\<dots> = (b1 + b2) + pz"
    by (simp only: assms(2) ac_simps)
  finally show ?thesis .
qed

lemma run_reports_balance:
  "distinct (pressed (prevReport s)) \<Longrightarrow> \<forall>r \<in> set rs. distinct (pressed r) \<Longrightarrow>
   key_makes (fst (run (map KeybReport rs) s))
       + image_mset scan_of (mset (filter translatable (pressed (prevReport s))))
     = key_breaks (fst (run (map KeybReport rs) s))
       + image_mset scan_of (mset (filter translatable
           (pressed (prevReport (snd (run (map KeybReport rs) s))))))"
proof (induction rs arbitrary: s)
  case Nil
  show ?case by (simp add: key_makes_Nil key_breaks_Nil)
next
  case (Cons r rs)
  let ?s' = "snd (processKeybReport r s)"
  let ?out = "fst (processKeybReport r s)"
  let ?rest = "run (map KeybReport rs) ?s'"
  have p: "prevReport ?s' = r"
    by (rule prevReport_processKeybReport)
  from Cons.prems have d: "distinct (pressed r)" "\<forall>r \<in> set rs. distinct (pressed r)"
    by simp_all
  from d(1) have "distinct (pressed (prevReport ?s'))"
    by (simp only: p)
  from Cons.IH [OF this d(2)]
  have ih: "key_makes (fst ?rest) + image_mset scan_of (mset (filter translatable (pressed r)))
      = key_breaks (fst ?rest)
          + image_mset scan_of (mset (filter translatable (pressed (prevReport (snd ?rest)))))"
    by (simp only: p)
  have e: "fst (run (map KeybReport (r # rs)) s) = ?out @ fst ?rest"
    "snd (run (map KeybReport (r # rs)) s) = snd ?rest"
    by (simp_all add: Let_def case_prod_beta)
  show ?case
    unfolding e key_makes_append key_breaks_append
    by (rule balance_chain [OF step_balance [OF Cons.prems(1) d(1)] ih])
qed

lemma prevReport_run_reports:
  "rs \<noteq> [] \<Longrightarrow> prevReport (snd (run (map KeybReport rs) s)) = last rs"
  by (induction rs arbitrary: s)
    (auto simp: Let_def case_prod_beta prevReport_processKeybReport)

lemma pressed_zeroReport: "pressed zeroReport = []"
  by (simp add: pressed_def zeroReport_def)

text \<open>
  C3, as the source has it. A report may name a keycode in two slots. From the all-zero
  report, the reports (A, A), (A) and all-zero write two make codes of A and one break
  code: the second report releases no key for \<^verbatim>\<open>isPresentInReport\<close>.
\<close>

theorem make_break_duplicate_counterexample:
  "prevReport x68k_init = zeroReport \<and> last reports_AA_A_zero = zeroReport \<and>
   keyb_bytes (fst (run (map KeybReport reports_AA_A_zero) x68k_init)) = [0x1E, 0x1E, 0x9E] \<and>
   key_makes (fst (run (map KeybReport reports_AA_A_zero) x68k_init)) = {#0x1E, 0x1E#} \<and>
   key_breaks (fst (run (map KeybReport reports_AA_A_zero) x68k_init)) = {#0x1E#} \<and>
   key_makes (fst (run (map KeybReport reports_AA_A_zero) x68k_init))
     \<noteq> key_breaks (fst (run (map KeybReport reports_AA_A_zero) x68k_init))"
proof -
  have o: "keyb_bytes (fst (run (map KeybReport reports_AA_A_zero) x68k_init))
      = [0x1E, 0x1E, 0x9E]"
    by (simp add: reports_AA_A_zero_def x68k_init_def processKeybReport_def
        compareKeybReports_def zeroReport_def report_A_def report_AA_def isPresentInReport_def
        sendKeycode_def HID_KEY_A_def HID_KEY_NONE_def keycodeScans_def Let_def)
  then show ?thesis
    by (simp add: key_makes_def key_breaks_def modifierScans_def)
      (simp add: reports_AA_A_zero_def x68k_init_def)
qed

text \<open>
  C3, amended. For a sequence of keyboard reports that starts from the all-zero report
  and ends with it, in which no report names a keycode above 0x03 in two slots, the
  multiset of make scancodes written equals the multiset of break scancodes written,
  modifier keys left out. (Sentinels and untranslatable keycodes write nothing.)
\<close>

theorem make_break_balance:
  "prevReport s = zeroReport \<Longrightarrow> rs \<noteq> [] \<Longrightarrow> last rs = zeroReport \<Longrightarrow>
   \<forall>r \<in> set rs. distinct (filter (\<lambda>k. 0x03 < k) (keycode r)) \<Longrightarrow>
   key_makes (fst (run (map KeybReport rs) s)) = key_breaks (fst (run (map KeybReport rs) s))"
proof -
  assume z: "prevReport s = zeroReport" and n: "rs \<noteq> []" and l: "last rs = zeroReport"
    and d: "\<forall>r \<in> set rs. distinct (filter (\<lambda>k. 0x03 < k) (keycode r))"
  from z have "distinct (pressed (prevReport s))"
    by (simp add: pressed_zeroReport)
  moreover from d have "\<forall>r \<in> set rs. distinct (pressed r)"
    by (simp add: pressed_def)
  ultimately show ?thesis
    using run_reports_balance [of s rs] prevReport_run_reports [OF n, of s] z l
    by (simp add: pressed_zeroReport)
qed

theorem make_break_balance_witness:
  "prevReport x68k_init = zeroReport \<and> reports_A_zero \<noteq> [] \<and> last reports_A_zero = zeroReport \<and>
   keyb_bytes (fst (run (map KeybReport reports_A_zero) x68k_init)) = [0x1E, 0x9E] \<and>
   key_makes (fst (run (map KeybReport reports_A_zero) x68k_init)) = {#0x1E#} \<and>
   key_breaks (fst (run (map KeybReport reports_A_zero) x68k_init)) = {#0x1E#}"
proof -
  have h: "prevReport x68k_init = zeroReport" "reports_A_zero \<noteq> []"
    "last reports_A_zero = zeroReport"
    "\<forall>r \<in> set reports_A_zero. distinct (filter (\<lambda>k. 0x03 < k) (keycode r))"
    by (simp_all add: x68k_init_def reports_A_zero_def report_A_def zeroReport_def)
  have o: "keyb_bytes (fst (run (map KeybReport reports_A_zero) x68k_init)) = [0x1E, 0x9E]"
    by (simp add: reports_A_zero_def x68k_init_def processKeybReport_def
        compareKeybReports_def zeroReport_def report_A_def isPresentInReport_def
        sendKeycode_def HID_KEY_A_def HID_KEY_NONE_def keycodeScans_def Let_def)
  then have "key_makes (fst (run (map KeybReport reports_A_zero) x68k_init)) = {#0x1E#}"
    by (simp add: key_makes_def modifierScans_def)
  with make_break_balance [OF h] h(1-3) o show ?thesis
    by simp
qed

section \<open>Key inhibit\<close>







text \<open>What a keyboard report writes does not depend on the flag.\<close>

lemma keyboard_output_ignores_keyInhibit:
  "fst (step (KeybReport report) (s\<lparr>keyInhibit := b\<rparr>)) = fst (step (KeybReport report) s)"
  by (simp add: processKeybReport_out)


end
